theory Spec2Isabelle
  imports Complex_Main
begin

section \<open>JavaScript numbers\<close>

text \<open>
  Every quantity of \<open>minimap.ts\<close> is a JavaScript \<open>number\<close>. The geometry code divides,
  and a division by zero does not raise in JavaScript: it yields \<open>Infinity\<close>, \<open>-Infinity\<close>
  or \<open>NaN\<close>, which then flow through the remaining arithmetic and make every comparison
  with \<open>NaN\<close> false. The model keeps these three special values. A finite value is an
  exact rational: the rounding of IEEE doubles and the sign of zero are not modelled (a
  zero divisor is taken to be \<open>+0\<close>, which is what \<open>x - x\<close> gives).
\<close>

datatype jsnum = NaN | PInf | NInf | Fin rat

fun js_neg :: "jsnum \<Rightarrow> jsnum" where
  "js_neg NaN = NaN"
| "js_neg PInf = NInf"
| "js_neg NInf = PInf"
| "js_neg (Fin a) = Fin (- a)"

fun js_add :: "jsnum \<Rightarrow> jsnum \<Rightarrow> jsnum" where
  "js_add NaN _ = NaN"
| "js_add _ NaN = NaN"
| "js_add PInf NInf = NaN"
| "js_add NInf PInf = NaN"
| "js_add PInf _ = PInf"
| "js_add _ PInf = PInf"
| "js_add NInf _ = NInf"
| "js_add _ NInf = NInf"
| "js_add (Fin a) (Fin b) = Fin (a + b)"

definition js_sub :: "jsnum \<Rightarrow> jsnum \<Rightarrow> jsnum" where
  "js_sub a b = js_add a (js_neg b)"

text \<open>The sign of a product or quotient with an infinite operand.\<close>

definition js_inf :: "bool \<Rightarrow> jsnum" where
  "js_inf positive = (if positive then PInf else NInf)"

fun js_mul :: "jsnum \<Rightarrow> jsnum \<Rightarrow> jsnum" where
  "js_mul NaN _ = NaN"
| "js_mul _ NaN = NaN"
| "js_mul (Fin a) (Fin b) = Fin (a * b)"
| "js_mul (Fin a) PInf = (if a = 0 then NaN else js_inf (0 < a))"
| "js_mul (Fin a) NInf = (if a = 0 then NaN else js_inf (a < 0))"
| "js_mul PInf (Fin b) = (if b = 0 then NaN else js_inf (0 < b))"
| "js_mul NInf (Fin b) = (if b = 0 then NaN else js_inf (b < 0))"
| "js_mul PInf PInf = PInf"
| "js_mul NInf NInf = PInf"
| "js_mul PInf NInf = NInf"
| "js_mul NInf PInf = NInf"

fun js_div :: "jsnum \<Rightarrow> jsnum \<Rightarrow> jsnum" where
  "js_div NaN _ = NaN"
| "js_div _ NaN = NaN"
| "js_div (Fin a) (Fin b) =
     (if b = 0 then (if a = 0 then NaN else js_inf (0 < a)) else Fin (a / b))"
| "js_div (Fin a) PInf = Fin 0"
| "js_div (Fin a) NInf = Fin 0"
| "js_div PInf (Fin b) = js_inf (0 \<le> b)"
| "js_div NInf (Fin b) = js_inf (b < 0)"
| "js_div PInf PInf = NaN"
| "js_div PInf NInf = NaN"
| "js_div NInf PInf = NaN"
| "js_div NInf NInf = NaN"

text \<open>\<open>Math.floor\<close>, \<open>Math.round\<close> (halves go up) and \<open>Math.abs\<close>.\<close>

fun js_floor :: "jsnum \<Rightarrow> jsnum" where
  "js_floor (Fin a) = Fin (of_int \<lfloor>a\<rfloor>)"
| "js_floor x = x"

fun js_round :: "jsnum \<Rightarrow> jsnum" where
  "js_round (Fin a) = Fin (of_int \<lfloor>a + 1 / 2\<rfloor>)"
| "js_round x = x"

fun js_abs :: "jsnum \<Rightarrow> jsnum" where
  "js_abs (Fin a) = Fin \<bar>a\<bar>"
| "js_abs NInf = PInf"
| "js_abs x = x"

text \<open>The relational operators: any comparison with \<open>NaN\<close> is false.\<close>

fun js_lt :: "jsnum \<Rightarrow> jsnum \<Rightarrow> bool" where
  "js_lt NaN _ = False"
| "js_lt _ NaN = False"
| "js_lt (Fin a) (Fin b) = (a < b)"
| "js_lt _ NInf = False"
| "js_lt PInf _ = False"
| "js_lt NInf _ = True"
| "js_lt _ PInf = True"

definition js_gt :: "jsnum \<Rightarrow> jsnum \<Rightarrow> bool" where
  "js_gt a b = js_lt b a"

definition js_seq :: "jsnum \<Rightarrow> jsnum \<Rightarrow> bool" where
  \<comment> \<open>\<open>===\<close> on numbers\<close>
  "js_seq a b = (a \<noteq> NaN \<and> a = b)"

definition js_le :: "jsnum \<Rightarrow> jsnum \<Rightarrow> bool" where
  "js_le a b = (js_lt a b \<or> js_seq a b)"

definition js_ge :: "jsnum \<Rightarrow> jsnum \<Rightarrow> bool" where
  "js_ge a b = js_le b a"

text \<open>\<open>Math.min\<close> and \<open>Math.max\<close> return \<open>NaN\<close> as soon as one argument is \<open>NaN\<close>.\<close>

definition js_min :: "jsnum \<Rightarrow> jsnum \<Rightarrow> jsnum" where
  "js_min a b = (if a = NaN \<or> b = NaN then NaN else if js_lt b a then b else a)"

definition js_max :: "jsnum \<Rightarrow> jsnum \<Rightarrow> jsnum" where
  "js_max a b = (if a = NaN \<or> b = NaN then NaN else if js_lt a b then b else a)"

abbreviation js_nat :: "nat \<Rightarrow> jsnum" where
  "js_nat n \<equiv> Fin (of_nat n)"


text \<open>
  The remainder operator \<open>%\<close>: the quotient is truncated towards zero, so the result has
  the sign of the dividend; a zero divisor or an infinite dividend gives \<open>NaN\<close>.
\<close>

definition js_trunc :: "rat \<Rightarrow> int" where
  "js_trunc q = (if q < 0 then \<lceil>q\<rceil> else \<lfloor>q\<rfloor>)"

fun js_rem :: "jsnum \<Rightarrow> jsnum \<Rightarrow> jsnum" where
  "js_rem (Fin a) (Fin b) = (if b = 0 then NaN else Fin (a - b * of_int (js_trunc (a / b))))"
| "js_rem (Fin a) PInf = Fin a"
| "js_rem (Fin a) NInf = Fin a"
| "js_rem _ _ = NaN"

fun js_isFinite :: "jsnum \<Rightarrow> bool" where
  "js_isFinite (Fin _) = True"
| "js_isFinite _ = False"


section \<open>Zoom categories and their glyph cell\<close>

datatype RenderMinimap = None' | Small | Large | SmallBlocks | LargeBlocks

text \<open>
  The enumeration \<open>Constants\<close> of \<open>minimapCharRenderer\<close> is imported by \<open>minimap.ts\<close> and
  is not among the sources. Its four members that the minimap reads are a parameter of
  the model; they are sizes in device pixels, hence naturals.
\<close>

record Constants =
  x1_CHAR_HEIGHT :: nat
  x1_CHAR_WIDTH :: nat
  x2_CHAR_HEIGHT :: nat
  x2_CHAR_WIDTH :: nat

fun getMinimapLineHeight :: "Constants \<Rightarrow> RenderMinimap \<Rightarrow> nat" where
  "getMinimapLineHeight K Large = x2_CHAR_HEIGHT K"
| "getMinimapLineHeight K LargeBlocks = x2_CHAR_HEIGHT K + 2"
| "getMinimapLineHeight K Small = x1_CHAR_HEIGHT K"
| "getMinimapLineHeight K _ = x1_CHAR_HEIGHT K + 1"

fun getMinimapCharWidth :: "Constants \<Rightarrow> RenderMinimap \<Rightarrow> nat" where
  "getMinimapCharWidth K Large = x2_CHAR_WIDTH K"
| "getMinimapCharWidth K LargeBlocks = x2_CHAR_WIDTH K"
| "getMinimapCharWidth K Small = x1_CHAR_WIDTH K"
| "getMinimapCharWidth K _ = x1_CHAR_WIDTH K"

definition MOUSE_DRAG_RESET_DISTANCE :: jsnum where
  "MOUSE_DRAG_RESET_DISTANCE = Fin 140"

section \<open>Options and layout\<close>

datatype ShowSlider = always | mouseover

record MinimapOptions =
  renderMinimap :: RenderMinimap
  showSlider :: ShowSlider
  pixelRatio :: jsnum
  lineHeight :: jsnum
  minimapWidth :: jsnum
  minimapHeight :: jsnum
  canvasInnerWidth :: jsnum
  canvasInnerHeight :: jsnum
  canvasOuterWidth :: jsnum
  canvasOuterHeight :: jsnum

record MinimapLayout =
  scrollTop :: jsnum
  computedSliderRatio :: jsnum
  sliderTop :: jsnum
  sliderHeight :: jsnum
  startLineNumber :: jsnum
  endLineNumber :: jsnum

definition getDesiredScrollTopFromDelta :: "MinimapLayout \<Rightarrow> jsnum \<Rightarrow> jsnum" where
  "getDesiredScrollTopFromDelta this delta =
     (let desiredSliderPosition = js_add (sliderTop this) delta
      in js_round (js_div desiredSliderPosition (computedSliderRatio this)))"

text \<open>
  \<open>MinimapLayout.create\<close>. The parameter \<open>scrollbarSliderCenter\<close> is accepted and never read,
  as in the source.
\<close>

definition create ::
  "Constants \<Rightarrow> MinimapOptions \<Rightarrow> jsnum \<Rightarrow> jsnum \<Rightarrow> jsnum \<Rightarrow> bool \<Rightarrow> jsnum \<Rightarrow> jsnum \<Rightarrow>
   jsnum \<Rightarrow> jsnum \<Rightarrow> MinimapLayout" where
  "create K options viewportStartLineNumber viewportEndLineNumber viewportHeight
     viewportContainsWhitespaceGaps lineCount scrollbarSliderCenter scrollTop' scrollHeight =
   (let pixelRatio' = pixelRatio options;
        minimapLineHeight = js_nat (getMinimapLineHeight K (renderMinimap options));
        minimapLinesFitting = js_floor (js_div (canvasInnerHeight options) minimapLineHeight);
        lineHeight' = lineHeight options;
        sliderHeight' =
          (if viewportContainsWhitespaceGaps \<and> \<not> js_seq viewportEndLineNumber lineCount then
             let viewportLineCount =
                   js_add (js_sub viewportEndLineNumber viewportStartLineNumber) (Fin 1)
             in js_floor (js_div (js_mul viewportLineCount minimapLineHeight) pixelRatio')
           else
             let expectedViewportLineCount = js_div viewportHeight lineHeight'
             in js_floor
                  (js_div (js_mul expectedViewportLineCount minimapLineHeight) pixelRatio'));
        maxMinimapSliderTop =
          js_min (js_sub (minimapHeight options) sliderHeight')
                 (js_div (js_mul (js_sub lineCount (Fin 1)) minimapLineHeight) pixelRatio');
        computedSliderRatio' = js_div maxMinimapSliderTop (js_sub scrollHeight viewportHeight);
        sliderTop' = js_mul scrollTop' computedSliderRatio'
    in if js_ge minimapLinesFitting lineCount then
         \<lparr>scrollTop = scrollTop', computedSliderRatio = computedSliderRatio',
          sliderTop = sliderTop', sliderHeight = sliderHeight',
          startLineNumber = Fin 1, endLineNumber = lineCount\<rparr>
       else
         let startLineNumber' =
               js_max (Fin 1)
                 (js_floor
                    (js_sub viewportStartLineNumber
                       (js_div (js_mul sliderTop' pixelRatio') minimapLineHeight)));
             endLineNumber' =
               js_min lineCount
                 (js_sub (js_add startLineNumber' minimapLinesFitting) (Fin 1))
         in \<lparr>scrollTop = scrollTop', computedSliderRatio = computedSliderRatio',
             sliderTop = sliderTop', sliderHeight = sliderHeight',
             startLineNumber = startLineNumber', endLineNumber = endLineNumber'\<rparr>)"

section \<open>The drag of the slider\<close>

text \<open>
  The \<open>mousedown\<close> listener of the slider captures the pointer position and the layout of
  the last render, and starts the monitoring of pointer moves. The captured values are the
  closure of the move callback; here they are the record \<open>SliderDrag\<close>. The callback asks
  the view layout for a scroll position: the model returns the requested \<open>scrollTop\<close>.
\<close>

record MouseData =
  leftButton :: bool
  posx :: jsnum
  posy :: jsnum

record SliderDrag =
  initialMousePosition :: jsnum
  initialMouseOrthogonalPosition :: jsnum
  initialSliderState :: MinimapLayout

definition sliderMouseMove :: "bool \<Rightarrow> SliderDrag \<Rightarrow> MouseData \<Rightarrow> jsnum" where
  "sliderMouseMove isWindows drag mouseMoveData =
     (let mouseOrthogonalDelta =
            js_abs (js_sub (posx mouseMoveData) (initialMouseOrthogonalPosition drag))
      in if isWindows \<and> js_gt mouseOrthogonalDelta MOUSE_DRAG_RESET_DISTANCE then
           scrollTop (initialSliderState drag)
         else
           let mouseDelta = js_sub (posy mouseMoveData) (initialMousePosition drag)
           in getDesiredScrollTopFromDelta (initialSliderState drag) mouseDelta)"

section \<open>Pixel buffers\<close>

text \<open>
  An \<open>ImageData\<close> has a width, a height and a \<open>Uint8ClampedArray\<close> of bytes.
  \<open>subarray\<close> clamps its bounds to the array (a negative bound counts from the end);
  \<open>set\<close> raises a \<open>RangeError\<close> when the source does not fit at the offset, and
  \<open>createImageData\<close> of the canvas raises an \<open>IndexSizeError\<close> for a zero size.
\<close>

datatype error = RangeError | IndexSizeError

record ImageData =
  width :: nat
  height :: nat
  data :: "nat list"

definition subarray :: "'a list \<Rightarrow> int \<Rightarrow> int \<Rightarrow> 'a list" where
  "subarray xs begin end' =
     (let len = int (length xs);
          b = (if begin < 0 then max (len + begin) 0 else min begin len);
          e = (if end' < 0 then max (len + end') 0 else min end' len)
      in take (nat (e - b)) (drop (nat b) xs))"

definition typed_set :: "'a list \<Rightarrow> 'a list \<Rightarrow> int \<Rightarrow> error + 'a list" where
  "typed_set target source offset =
     (if offset < 0 \<or> int (length target) < int (length source) + offset then Inl RangeError
      else Inr (take (nat offset) target @ source @ drop (nat offset + length source) target))"

record RGBA =
  r :: nat
  g :: nat
  b :: nat
  a :: nat






section \<open>Rendered rows\<close>

record MinimapLine =
  dy :: int


text \<open>
  Modelled from the spec: \<open>RenderedLinesCollection\<close>, the class of the view layer in which
  \<open>RenderData\<close> keeps its rows, is not among the sources. The spec describes it as the
  ordered list of rendered-row records of the visible range, anchored at the first rendered
  line. The constructor stores the rows with \<open>_set\<close> under the first line of the layout and
  \<open>_get\<close> reads both back: the model keeps the anchor and the list.
\<close>

record RenderData =
  renderedLayout :: MinimapLayout
  imageData :: ImageData
  rendLineNumberStart :: int
  lines :: "MinimapLine list"


text \<open>
  The \<open>mousedown\<close> listener of the slider: a drag starts on the left button when a frame
  has been rendered.
\<close>

definition sliderMouseDown :: "RenderData option \<Rightarrow> MouseData \<Rightarrow> SliderDrag option" where
  "sliderMouseDown lastRenderData e =
     (case lastRenderData of
        Some rd \<Rightarrow>
          if leftButton e then
            Some \<lparr>initialMousePosition = posy e,
                  initialMouseOrthogonalPosition = posx e,
                  initialSliderState = renderedLayout rd\<rparr>
          else None
      | None \<Rightarrow> None)"

section \<open>Reuse of the rows of the previous frame\<close>

text \<open>
  Line numbers, row offsets and byte offsets are integers. The state of the loop of
  \<open>_renderUntouchedLines\<close> is the array \<open>needed\<close>, the bytes of the target, the pending copy
  request and the destination row. Each turn writes \<open>needed[lineIndex]\<close> with
  \<open>lineIndex = lineNumber - startLineNumber\<close>, which is the length the array has then: the
  write appends.
\<close>

record UntouchedState =
  needed :: "bool list"
  targetData :: "nat list"
  copySourceStart :: int
  copySourceEnd :: int
  copyDestStart :: int
  copyDestEnd :: int
  dest_dy :: int

definition flushCopyRequest :: "nat list \<Rightarrow> UntouchedState \<Rightarrow> error + nat list" where
  "flushCopyRequest lastTargetData s =
     (if copySourceStart s \<noteq> - 1 then
        typed_set (targetData s)
          (subarray lastTargetData (copySourceStart s) (copySourceEnd s)) (copyDestStart s)
      else Inr (targetData s))"

function untouchedLoop ::
  "nat \<Rightarrow> nat \<Rightarrow> int \<Rightarrow> int \<Rightarrow> MinimapLine list \<Rightarrow> nat list \<Rightarrow> int \<Rightarrow> UntouchedState \<Rightarrow>
   error + UntouchedState" where
  "untouchedLoop WIDTH minimapLineHeight endLineNumber' lastStartLineNumber lastLines
     lastTargetData lineNumber s =
   (if lineNumber \<le> endLineNumber' then
      let lastLineIndex = lineNumber - lastStartLineNumber;
          source_dy =
            (if 0 \<le> lastLineIndex \<and> lastLineIndex < int (length lastLines)
             then dy (lastLines ! nat lastLineIndex) else - 1)
      in if source_dy = - 1 then
           untouchedLoop WIDTH minimapLineHeight endLineNumber' lastStartLineNumber lastLines
             lastTargetData (lineNumber + 1)
             (s\<lparr>needed := needed s @ [True], dest_dy := dest_dy s + int minimapLineHeight\<rparr>)
         else
           let sourceStart = source_dy * int WIDTH * 4;
               sourceEnd = (source_dy + int minimapLineHeight) * int WIDTH * 4;
               destStart = dest_dy s * int WIDTH * 4;
               destEnd = (dest_dy s + int minimapLineHeight) * int WIDTH * 4
           in if copySourceEnd s = sourceStart \<and> copyDestEnd s = destStart then
                untouchedLoop WIDTH minimapLineHeight endLineNumber' lastStartLineNumber
                  lastLines lastTargetData (lineNumber + 1)
                  (s\<lparr>copySourceEnd := sourceEnd, copyDestEnd := destEnd,
                     needed := needed s @ [False],
                     dest_dy := dest_dy s + int minimapLineHeight\<rparr>)
              else
                (case flushCopyRequest lastTargetData s of
                   Inl e \<Rightarrow> Inl e
                 | Inr td \<Rightarrow>
                     untouchedLoop WIDTH minimapLineHeight endLineNumber' lastStartLineNumber
                       lastLines lastTargetData (lineNumber + 1)
                       (s\<lparr>targetData := td,
                          copySourceStart := sourceStart, copySourceEnd := sourceEnd,
                          copyDestStart := destStart, copyDestEnd := destEnd,
                          needed := needed s @ [False],
                          dest_dy := dest_dy s + int minimapLineHeight\<rparr>))
    else Inr s)"
  by pat_completeness auto
termination
  by (relation "measure (\<lambda>(W, h, e, ls, ll, ld, n, s). nat (e + 1 - n))") auto

definition renderUntouchedLines ::
  "ImageData \<Rightarrow> int \<Rightarrow> int \<Rightarrow> nat \<Rightarrow> RenderData option \<Rightarrow> error + (bool list \<times> ImageData)" where
  "renderUntouchedLines target startLineNumber' endLineNumber' minimapLineHeight lastRenderData =
     (case lastRenderData of
        None \<Rightarrow> Inr (replicate (nat (endLineNumber' - startLineNumber' + 1)) True, target)
      | Some rd \<Rightarrow>
          (case untouchedLoop (width target) minimapLineHeight endLineNumber'
                  (rendLineNumberStart rd) (lines rd) (data (imageData rd)) startLineNumber'
                  \<lparr>needed = [], targetData = data target,
                   copySourceStart = - 1, copySourceEnd = - 1,
                   copyDestStart = - 1, copyDestEnd = - 1, dest_dy = 0\<rparr> of
             Inl e \<Rightarrow> Inl e
           | Inr s \<Rightarrow>
               (case flushCopyRequest (data (imageData rd)) s of
                  Inl e \<Rightarrow> Inl e
                | Inr td \<Rightarrow> Inr (needed s, target\<lparr>data := td\<rparr>))))"

section \<open>The line rasterizer\<close>

text \<open>
  Modelled from the spec: \<open>CharCode\<close> of \<open>vs/base/common/charCode\<close> is not among the
  sources; the two members read here are the tab and the space character, whose UTF-16
  codes are 9 and 32.
\<close>

definition CharCode_Tab :: nat where
  "CharCode_Tab = 9"

definition CharCode_Space :: nat where
  "CharCode_Space = 32"

text \<open>
  A line is its content, a string of UTF-16 code units, and its tokens. \<open>charCodeAt\<close>
  yields \<open>NaN\<close> past the end of the string: here no code.
\<close>

record ViewLineToken =
  endIndex :: nat
  getForeground :: nat

record ViewLineData =
  content :: "nat list"
  tokens :: "ViewLineToken list"

definition charCodeAt :: "nat list \<Rightarrow> nat \<Rightarrow> nat option" where
  "charCodeAt str i = (if i < length str then Some (str ! i) else None)"

text \<open>
  The four methods of \<open>MinimapCharRenderer\<close> write the pixels of one glyph cell; the class
  is not among the sources. \<open>_renderLine\<close> is modelled by the calls it makes, in order,
  each with its arguments after the target: \<open>dx\<close>, \<open>dy\<close>, the character code (glyph
  variants only), the token colour, the background colour and \<open>useLighterFont\<close>.
\<close>

datatype RenderCall =
    x2RenderChar jsnum int "nat option" RGBA RGBA bool
  | x1RenderChar jsnum int "nat option" RGBA RGBA bool
  | x2BlockRenderChar jsnum int RGBA RGBA bool
  | x1BlockRenderChar jsnum int RGBA RGBA bool

fun call_dx :: "RenderCall \<Rightarrow> jsnum" where
  "call_dx (x2RenderChar x _ _ _ _ _) = x"
| "call_dx (x1RenderChar x _ _ _ _ _) = x"
| "call_dx (x2BlockRenderChar x _ _ _ _) = x"
| "call_dx (x1BlockRenderChar x _ _ _ _) = x"

fun call_charCode :: "RenderCall \<Rightarrow> nat option" where
  "call_charCode (x2RenderChar _ _ c _ _ _) = c"
| "call_charCode (x1RenderChar _ _ c _ _ _) = c"
| "call_charCode _ = None"

text \<open>What stays the same during one call of \<open>_renderLine\<close>.\<close>

record LineParams =
  p_constants :: Constants
  p_targetWidth :: nat
  p_backgroundColor :: RGBA
  p_useLighterFont :: bool
  p_renderMinimap :: RenderMinimap
  p_dy :: int
  p_tabSize :: jsnum
  p_content :: "nat list"

definition p_charWidth :: "LineParams \<Rightarrow> jsnum" where
  "p_charWidth P = js_nat (getMinimapCharWidth (p_constants P) (p_renderMinimap P))"

definition p_maxDx :: "LineParams \<Rightarrow> jsnum" where
  "p_maxDx P = js_sub (js_nat (p_targetWidth P)) (p_charWidth P)"

record LineCursor =
  dx :: jsnum
  charIndex :: nat
  tabsCharDelta :: jsnum

text \<open>
  The body of the character loop below the edge test: the calls made for the character
  at \<open>charIndex\<close> and the cursor after it (\<open>charIndex\<close> is advanced by the loop).
\<close>

definition renderChar :: "LineParams \<Rightarrow> RGBA \<Rightarrow> LineCursor \<Rightarrow> RenderCall list \<times> LineCursor" where
  "renderChar P tokenColor c =
     (let charCode = charCodeAt (p_content P) (charIndex c) in
      if charCode = Some CharCode_Tab then
        let insertSpacesCount =
              js_sub (p_tabSize P)
                (js_rem (js_add (js_nat (charIndex c)) (tabsCharDelta c)) (p_tabSize P))
        in ([], c\<lparr>tabsCharDelta := js_add (tabsCharDelta c) (js_sub insertSpacesCount (Fin 1)),
                  dx := js_add (dx c) (js_mul insertSpacesCount (p_charWidth P))\<rparr>)
      else if charCode = Some CharCode_Space then
        ([], c\<lparr>dx := js_add (dx c) (p_charWidth P)\<rparr>)
      else
        ([if p_renderMinimap P = Large then
            x2RenderChar (dx c) (p_dy P) charCode tokenColor (p_backgroundColor P)
              (p_useLighterFont P)
          else if p_renderMinimap P = Small then
            x1RenderChar (dx c) (p_dy P) charCode tokenColor (p_backgroundColor P)
              (p_useLighterFont P)
          else if p_renderMinimap P = LargeBlocks then
            x2BlockRenderChar (dx c) (p_dy P) tokenColor (p_backgroundColor P)
              (p_useLighterFont P)
          else
            x1BlockRenderChar (dx c) (p_dy P) tokenColor (p_backgroundColor P)
              (p_useLighterFont P)],
         c\<lparr>dx := js_add (dx c) (p_charWidth P)\<rparr>))"

text \<open>
  The character loop of one token. The result is the calls made and the cursor at the
  end of the token, or no cursor when the \<open>return\<close> at the edge of the minimap was taken.
\<close>

function charLoop ::
  "LineParams \<Rightarrow> nat \<Rightarrow> RGBA \<Rightarrow> LineCursor \<Rightarrow> RenderCall list \<times> LineCursor option" where
  "charLoop P tokenEndIndex tokenColor c =
     (if charIndex c < tokenEndIndex then
        if js_gt (dx c) (p_maxDx P) then ([], None)
        else
          let (calls, c') = renderChar P tokenColor c;
              (rest, result) =
                charLoop P tokenEndIndex tokenColor (c'\<lparr>charIndex := charIndex c + 1\<rparr>)
          in (calls @ rest, result)
      else ([], Some c))"
  by pat_completeness auto
termination
  by (relation "measure (\<lambda>(P, e, col, c). e - charIndex c)") auto

fun tokenLoop ::
  "LineParams \<Rightarrow> (nat \<Rightarrow> RGBA) \<Rightarrow> ViewLineToken list \<Rightarrow> LineCursor \<Rightarrow> RenderCall list" where
  "tokenLoop P getColor [] c = []"
| "tokenLoop P getColor (token # rest) c =
     (let tokenEndIndex = endIndex token;
          tokenColorId = getForeground token;
          tokenColor = getColor tokenColorId
      in case charLoop P tokenEndIndex tokenColor c of
           (calls, None) \<Rightarrow> calls
         | (calls, Some c') \<Rightarrow> calls @ tokenLoop P getColor rest c')"

definition renderLine ::
  "Constants \<Rightarrow> ImageData \<Rightarrow> RGBA \<Rightarrow> bool \<Rightarrow> RenderMinimap \<Rightarrow> (nat \<Rightarrow> RGBA) \<Rightarrow> int \<Rightarrow> jsnum \<Rightarrow>
   ViewLineData \<Rightarrow> RenderCall list" where
  "renderLine K target backgroundColor useLighterFont renderMinimap' getColor dy' tabSize lineData =
     tokenLoop
       \<lparr>p_constants = K, p_targetWidth = width target, p_backgroundColor = backgroundColor,
        p_useLighterFont = useLighterFont, p_renderMinimap = renderMinimap', p_dy = dy',
        p_tabSize = tabSize, p_content = content lineData\<rparr>
       getColor (tokens lineData) \<lparr>dx = Fin 0, charIndex = 0, tabsCharDelta = Fin 0\<rparr>"

section \<open>A frame\<close>










section \<open>What the copy loop maintains\<close>

text \<open>
  The bytes of one row of text, the record that the previous frame holds for a line (none
  when the line is outside the previous range or its record is invalid), and the invariant
  of the loop of \<open>_renderUntouchedLines\<close>: every line seen so far with a record is either
  already copied to its row of the target, or covered by the pending copy request at the
  matching offset.
\<close>

definition row_bytes :: "nat \<Rightarrow> nat \<Rightarrow> int" where
  "row_bytes W h = int h * int W * 4"

definition last_dy :: "int \<Rightarrow> MinimapLine list \<Rightarrow> int \<Rightarrow> int option" where
  "last_dy lastStart lastLines n =
     (let i = n - lastStart in
      if 0 \<le> i \<and> i < int (length lastLines) \<and> dy (lastLines ! nat i) \<noteq> - 1
      then Some (dy (lastLines ! nat i)) else None)"

definition row_copied :: "nat \<Rightarrow> nat \<Rightarrow> nat list \<Rightarrow> nat list \<Rightarrow> int \<Rightarrow> int \<Rightarrow> bool" where
  "row_copied W h ld td k y =
     (\<forall>i. 0 \<le> i \<and> i < row_bytes W h \<longrightarrow>
        td ! nat (k * row_bytes W h + i) = ld ! nat (y * int W * 4 + i))"

definition row_done :: "nat \<Rightarrow> nat \<Rightarrow> nat list \<Rightarrow> UntouchedState \<Rightarrow> int \<Rightarrow> int \<Rightarrow> bool" where
  "row_done W h ld st k y =
     (row_copied W h ld (targetData st) k y \<and>
      (copySourceStart st \<noteq> - 1 \<longrightarrow> (k + 1) * row_bytes W h \<le> copyDestStart st))"

definition row_pending :: "nat \<Rightarrow> nat \<Rightarrow> UntouchedState \<Rightarrow> int \<Rightarrow> int \<Rightarrow> bool" where
  "row_pending W h st k y =
     (copySourceStart st \<noteq> - 1 \<and> copyDestStart st \<le> k * row_bytes W h \<and>
      (k + 1) * row_bytes W h \<le> copyDestEnd st \<and>
      y * int W * 4 - copySourceStart st = k * row_bytes W h - copyDestStart st)"

definition pending_ok :: "nat \<Rightarrow> nat \<Rightarrow> nat list \<Rightarrow> int \<Rightarrow> UntouchedState \<Rightarrow> bool" where
  "pending_ok W h ld k st =
     ((copySourceStart st = - 1 \<and> copySourceEnd st = - 1) \<or>
      (0 \<le> copySourceStart st \<and> copySourceStart st \<le> copySourceEnd st \<and>
       copySourceEnd st \<le> int (length ld) \<and> 0 \<le> copyDestStart st \<and>
       copyDestEnd st - copyDestStart st = copySourceEnd st - copySourceStart st \<and>
       copyDestEnd st \<le> k * row_bytes W h))"

definition rows_ok ::
  "nat \<Rightarrow> nat \<Rightarrow> int \<Rightarrow> int \<Rightarrow> MinimapLine list \<Rightarrow> nat list \<Rightarrow> int \<Rightarrow> UntouchedState \<Rightarrow> bool" where
  "rows_ok W h s0 ls ll ld n st =
     (\<forall>m. s0 \<le> m \<and> m < n \<longrightarrow>
        (case last_dy ls ll m of
           None \<Rightarrow> needed st ! nat (m - s0)
         | Some y \<Rightarrow> \<not> needed st ! nat (m - s0) \<and>
             (row_done W h ld st (m - s0) y \<or> row_pending W h st (m - s0) y)))"

definition untouched_inv ::
  "nat \<Rightarrow> nat \<Rightarrow> int \<Rightarrow> int \<Rightarrow> MinimapLine list \<Rightarrow> nat list \<Rightarrow> nat \<Rightarrow> int \<Rightarrow> UntouchedState \<Rightarrow> bool" where
  "untouched_inv W h s0 ls ll ld L n st =
     (length (targetData st) = L \<and> dest_dy st = (n - s0) * int h \<and>
      length (needed st) = nat (n - s0) \<and> pending_ok W h ld (n - s0) st \<and>
      rows_ok W h s0 ls ll ld n st)"

section \<open>Sample inputs\<close>

text \<open>
  A glyph cell of 1 by 2 device pixels at the small scale and of 2 by 4 at the large one,
  and a minimap of 100 by 600 pixels beside an editor with lines of 20 pixels.
\<close>

definition sample_Constants :: Constants where
  "sample_Constants =
     \<lparr>x1_CHAR_HEIGHT = 2, x1_CHAR_WIDTH = 1, x2_CHAR_HEIGHT = 4, x2_CHAR_WIDTH = 2\<rparr>"

definition sample_options :: MinimapOptions where
  "sample_options =
     \<lparr>renderMinimap = Small, showSlider = mouseover, pixelRatio = Fin 1, lineHeight = Fin 20,
      minimapWidth = Fin 100, minimapHeight = Fin 600,
      canvasInnerWidth = Fin 100, canvasInnerHeight = Fin 600,
      canvasOuterWidth = Fin 100, canvasOuterHeight = Fin 600\<rparr>"

definition sample_layout :: MinimapLayout where
  "sample_layout =
     \<lparr>scrollTop = Fin 9980, computedSliderRatio = Fin (27 / 970), sliderTop = Fin (26946 / 97),
      sliderHeight = Fin 60, startLineNumber = Fin 361, endLineNumber = Fin 660\<rparr>"

definition sample_renderData :: RenderData where
  "sample_renderData =
     \<lparr>renderedLayout = sample_layout,
      imageData = \<lparr>width = 1, height = 2, data = [0, 0, 0, 255, 0, 0, 0, 255]\<rparr>,
      rendLineNumberStart = 361, lines = [\<lparr>dy = 0\<rparr>]\<rparr>"

definition sample_color :: RGBA where
  "sample_color = \<lparr>r = 200, g = 200, b = 200, a = 255\<rparr>"

definition sample_background :: RGBA where
  "sample_background = \<lparr>r = 30, g = 30, b = 30, a = 255\<rparr>"

text \<open>The line \<open>abcd\<close> in two tokens, for a buffer 3 pixels wide at the large scale.\<close>

definition sample_line :: ViewLineData where
  "sample_line =
     \<lparr>content = [97, 98, 99, 100],
      tokens = [\<lparr>endIndex = 2, getForeground = 1\<rparr>, \<lparr>endIndex = 4, getForeground = 1\<rparr>]\<rparr>"

definition sample_params :: LineParams where
  "sample_params =
     \<lparr>p_constants = sample_Constants, p_targetWidth = 3, p_backgroundColor = sample_background,
      p_useLighterFont = False, p_renderMinimap = Large, p_dy = 0, p_tabSize = Fin 4,
      p_content = content sample_line\<rparr>"

text \<open>The line of \<open>a\<close>, a tab and \<open>b\<close>, for a buffer 10 pixels wide at the small scale.\<close>

definition sample_tab_params :: LineParams where
  "sample_tab_params =
     \<lparr>p_constants = sample_Constants, p_targetWidth = 10, p_backgroundColor = sample_background,
      p_useLighterFont = False, p_renderMinimap = Small, p_dy = 0, p_tabSize = Fin 4,
      p_content = [97, 9, 98]\<rparr>"





definition tiny_fill :: "nat list" where
  "tiny_fill = [30, 30, 30, 255, 30, 30, 30, 255, 30, 30, 30, 255, 30, 30, 30, 255]"


text \<open>
  Two frames of a buffer 1 pixel wide with rows of 2 pixels: the previous frame shows the
  lines 1 and 2, the next one the lines 2 and 3.
\<close>

definition sample_last :: RenderData where
  "sample_last =
     \<lparr>renderedLayout =
        \<lparr>scrollTop = Fin 0, computedSliderRatio = Fin 0, sliderTop = Fin 0,
         sliderHeight = Fin 4, startLineNumber = Fin 1, endLineNumber = Fin 2\<rparr>,
      imageData =
        \<lparr>width = 1, height = 4,
         data = [1, 2, 3, 4, 5, 6, 7, 8, 9, 10, 11, 12, 13, 14, 15, 16]\<rparr>,
      rendLineNumberStart = 1, lines = [\<lparr>dy = 0\<rparr>, \<lparr>dy = 2\<rparr>]\<rparr>"

definition sample_target :: ImageData where
  "sample_target = \<lparr>width = 1, height = 4, data = tiny_fill\<rparr>"


declare charLoop.simps [simp del]
declare untouchedLoop.simps [simp del]

section \<open>Facts about the numbers\<close>

lemma js_mul_not_finite: "\<not> js_isFinite x \<Longrightarrow> \<not> js_isFinite (js_mul s x)"
  by (cases s; cases x; simp add: js_inf_def)

lemma js_sub_self: "js_sub x x = Fin 0 \<or> js_sub x x = NaN"
  by (cases x; simp add: js_sub_def)

lemma js_div_degenerate: "d = Fin 0 \<or> d = NaN \<Longrightarrow> \<not> js_isFinite (js_div m d)"
  by (cases m; auto simp: js_inf_def split: if_splits)



lemmas js_compare_defs = js_gt_def js_ge_def js_le_def js_seq_def

lemmas sample_defs = sample_Constants_def sample_options_def sample_layout_def
  sample_renderData_def sample_color_def sample_background_def sample_line_def
  sample_params_def sample_tab_params_def


section \<open>The layout\<close>

lemma create_sliderTop:
  "sliderTop (create K opts vs ve vh gaps lc c st sh) =
   js_mul st (computedSliderRatio (create K opts vs ve vh gaps lc c st sh))"
  by (simp add: create_def Let_def)

lemma create_ratio:
  "\<exists>m. computedSliderRatio (create K opts vs ve vh gaps lc c st sh) = js_div m (js_sub sh vh)"
  by (auto simp: create_def Let_def)


text \<open>
  When the document does not scroll, \<open>scrollHeight\<close> equals \<open>viewportHeight\<close> and \<open>create\<close>
  divides by their difference, which is zero. Nothing is raised, but the ratio is an
  infinity or \<open>NaN\<close>, and so is the slider top, the product of \<open>scrollTop\<close> and the ratio.
\<close>

lemma create_nonscrolling_not_finite:
  "\<not> js_isFinite (computedSliderRatio (create K opts vs ve vh gaps lc c st vh)) \<and>
   \<not> js_isFinite (sliderTop (create K opts vs ve vh gaps lc c st vh))"
proof -
  let ?L = "create K opts vs ve vh gaps lc c st vh"
  obtain m where m: "computedSliderRatio ?L = js_div m (js_sub vh vh)"
    using create_ratio by blast
  have ratio: "\<not> js_isFinite (computedSliderRatio ?L)"
    unfolding m using js_sub_self by (rule js_div_degenerate)
  have "\<not> js_isFinite (sliderTop ?L)"
    unfolding create_sliderTop using ratio by (rule js_mul_not_finite)
  with ratio show ?thesis by simp
qed

text \<open>
  C1. The claim is that a document that does not scroll gets the slider top 0, with no
  division by zero. The code has no such case. For a document of one line in a viewport of
  600 pixels, where \<open>scrollHeight\<close> is the viewport height, \<open>maxMinimapSliderTop\<close> is 0, the
  ratio is \<open>0 / 0\<close> and the slider top \<open>0 * NaN\<close>: both are \<open>NaN\<close>.
\<close>

theorem create_one_line_document:
  "create sample_Constants sample_options (Fin 1) (Fin 1) (Fin 600) False (Fin 1) (Fin 0)
     (Fin 0) (Fin 600) =
   \<lparr>scrollTop = Fin 0, computedSliderRatio = NaN, sliderTop = NaN, sliderHeight = Fin 60,
    startLineNumber = Fin 1, endLineNumber = Fin 1\<rparr>"
  by (simp add: create_def Let_def sample_defs js_sub_def js_min_def js_compare_defs js_inf_def)

text \<open>
  C4. When the rows that fit in the buffer, \<open>floor (canvasInnerHeight / minimapLineHeight)\<close>,
  are at least the line count, the layout shows the lines from 1 to the line count.
\<close>

theorem create_full_fit:
  assumes "js_ge (js_floor (js_div (canvasInnerHeight opts)
                    (js_nat (getMinimapLineHeight K (renderMinimap opts))))) lc"
  shows "startLineNumber (create K opts vs ve vh gaps lc c st sh) = Fin 1 \<and>
         endLineNumber (create K opts vs ve vh gaps lc c st sh) = lc"
  using assms by (simp add: create_def Let_def)

theorem create_full_fit_witness:
  "js_ge (js_floor (js_div (canvasInnerHeight sample_options)
            (js_nat (getMinimapLineHeight sample_Constants (renderMinimap sample_options)))))
     (Fin 30) \<and>
   startLineNumber (create sample_Constants sample_options (Fin 1) (Fin 30) (Fin 600) False
     (Fin 30) (Fin 0) (Fin 0) (Fin 1200)) = Fin 1 \<and>
   endLineNumber (create sample_Constants sample_options (Fin 1) (Fin 30) (Fin 600) False
     (Fin 30) (Fin 0) (Fin 0) (Fin 1200)) = Fin 30"
proof -
  have h: "js_ge (js_floor (js_div (canvasInnerHeight sample_options)
            (js_nat (getMinimapLineHeight sample_Constants (renderMinimap sample_options)))))
     (Fin 30)"
    by (simp add: sample_defs js_compare_defs)
  show ?thesis
    using h create_full_fit [OF h, of "Fin 1" "Fin 30" "Fin 600" False "Fin 0" "Fin 0" "Fin 1200"]
    by simp
qed






section \<open>The drag of the slider, snapping back\<close>

text \<open>
  C3. On Windows, during a drag started by a press on the slider, a pointer move whose
  horizontal distance from the press exceeds 140 pixels requests the \<open>scrollTop\<close> of the
  layout captured at the press, whatever the vertical position of the pointer.
\<close>

theorem sliderMouseMove_snap_back:
  assumes "sliderMouseDown (Some rd) e = Some drag"
    and "js_gt (js_abs (js_sub (posx mv) (posx e))) (Fin 140)"
  shows "sliderMouseMove True drag mv = scrollTop (renderedLayout rd)"
proof -
  from assms(1) have
    "initialMouseOrthogonalPosition drag = posx e" "initialSliderState drag = renderedLayout rd"
    by (auto simp: sliderMouseDown_def split: if_splits)
  with assms(2) show ?thesis
    by (simp add: sliderMouseMove_def MOUSE_DRAG_RESET_DISTANCE_def)
qed

theorem sliderMouseMove_snap_back_witness:
  "sliderMouseDown (Some sample_renderData) \<lparr>leftButton = True, posx = Fin 10, posy = Fin 100\<rparr> =
     Some \<lparr>initialMousePosition = Fin 100, initialMouseOrthogonalPosition = Fin 10,
           initialSliderState = sample_layout\<rparr> \<and>
   js_gt (js_abs (js_sub (posx \<lparr>leftButton = True, posx = Fin 200, posy = Fin 400\<rparr>)
                    (posx \<lparr>leftButton = True, posx = Fin 10, posy = Fin 100\<rparr>))) (Fin 140) \<and>
   sliderMouseMove True
     \<lparr>initialMousePosition = Fin 100, initialMouseOrthogonalPosition = Fin 10,
      initialSliderState = sample_layout\<rparr>
     \<lparr>leftButton = True, posx = Fin 200, posy = Fin 400\<rparr> = Fin 9980"
proof -
  have down:
    "sliderMouseDown (Some sample_renderData) \<lparr>leftButton = True, posx = Fin 10, posy = Fin 100\<rparr> =
       Some \<lparr>initialMousePosition = Fin 100, initialMouseOrthogonalPosition = Fin 10,
             initialSliderState = sample_layout\<rparr>"
    by (simp add: sliderMouseDown_def sample_renderData_def)
  have far:
    "js_gt (js_abs (js_sub (posx \<lparr>leftButton = True, posx = Fin 200, posy = Fin 400\<rparr>)
                      (posx \<lparr>leftButton = True, posx = Fin 10, posy = Fin 100\<rparr>))) (Fin 140)"
    by (simp add: js_gt_def js_sub_def)
  show ?thesis
    using down far sliderMouseMove_snap_back [OF down far]
    by (simp add: sample_renderData_def sample_layout_def)
qed

section \<open>The line rasterizer: the right edge and the tabs\<close>

lemma js_trunc_quarter: "js_trunc (1 / 4) = 0"
proof -
  have "\<lfloor>1 / 4 :: rat\<rfloor> = 0" by (rule floor_unique) simp_all
  then show ?thesis by (simp add: js_trunc_def)
qed














text \<open>
  C6. A tab advances \<open>dx\<close> by \<open>tabSize - (charIndex + tabsCharDelta) % tabSize\<close> cells of
  \<open>charWidth\<close> and a space by one cell, and neither draws. For the line of \<open>a\<close>, a tab and
  \<open>b\<close> with tab size 4, in a buffer wide enough for five cells, two glyphs are drawn: the
  first at 0 and the second, that of \<open>b\<close>, at \<open>4 * charWidth\<close>.
\<close>

theorem renderLine_tab_expansion:
  "(charCodeAt (p_content P) (charIndex c) = Some CharCode_Tab \<longrightarrow>
      renderChar P color c =
        ([], c\<lparr>tabsCharDelta :=
                 js_add (tabsCharDelta c)
                   (js_sub (js_sub (p_tabSize P)
                      (js_rem (js_add (js_nat (charIndex c)) (tabsCharDelta c)) (p_tabSize P)))
                      (Fin 1)),
               dx :=
                 js_add (dx c)
                   (js_mul (js_sub (p_tabSize P)
                      (js_rem (js_add (js_nat (charIndex c)) (tabsCharDelta c)) (p_tabSize P)))
                      (p_charWidth P))\<rparr>)) \<and>
   (charCodeAt (p_content Q) (charIndex d) = Some CharCode_Space \<longrightarrow>
      renderChar Q color d = ([], d\<lparr>dx := js_add (dx d) (p_charWidth Q)\<rparr>)) \<and>
   (endIndex tok = 3 \<and> 5 * getMinimapCharWidth K rm \<le> width target \<longrightarrow>
      map call_dx (renderLine K target bg lighter rm getColor dy0 (Fin 4)
                     \<lparr>content = [97, 9, 98], tokens = [tok]\<rparr>) =
        [Fin 0, js_nat (4 * getMinimapCharWidth K rm)] \<and>
      map call_charCode (renderLine K target bg lighter rm getColor dy0 (Fin 4)
                           \<lparr>content = [97, 9, 98], tokens = [tok]\<rparr>) =
        (if rm = Large \<or> rm = Small then [Some 97, Some 98] else [None, None]))"
proof (intro conjI impI)
  assume "charCodeAt (p_content P) (charIndex c) = Some CharCode_Tab"
  then show "renderChar P color c =
        ([], c\<lparr>tabsCharDelta :=
                 js_add (tabsCharDelta c)
                   (js_sub (js_sub (p_tabSize P)
                      (js_rem (js_add (js_nat (charIndex c)) (tabsCharDelta c)) (p_tabSize P)))
                      (Fin 1)),
               dx :=
                 js_add (dx c)
                   (js_mul (js_sub (p_tabSize P)
                      (js_rem (js_add (js_nat (charIndex c)) (tabsCharDelta c)) (p_tabSize P)))
                      (p_charWidth P))\<rparr>)"
    by (simp add: renderChar_def Let_def)
next
  assume "charCodeAt (p_content Q) (charIndex d) = Some CharCode_Space"
  then show "renderChar Q color d = ([], d\<lparr>dx := js_add (dx d) (p_charWidth Q)\<rparr>)"
    by (simp add: renderChar_def Let_def CharCode_Tab_def CharCode_Space_def)
next
  assume a: "endIndex tok = 3 \<and> 5 * getMinimapCharWidth K rm \<le> width target"
  define cw :: rat where "cw = of_nat (getMinimapCharWidth K rm)"
  define w :: rat where "w = of_nat (width target)"
  have "of_nat (5 * getMinimapCharWidth K rm) \<le> (of_nat (width target) :: rat)"
    using a by (simp only: of_nat_le_iff)
  then have fit: "5 * cw \<le> w" and cw0: "0 \<le> cw" by (simp_all add: cw_def w_def)
  show "map call_dx (renderLine K target bg lighter rm getColor dy0 (Fin 4)
                     \<lparr>content = [97, 9, 98], tokens = [tok]\<rparr>) =
        [Fin 0, js_nat (4 * getMinimapCharWidth K rm)]"
    using fit cw0 a
    by (simp add: renderLine_def Let_def charLoop.simps renderChar_def charCodeAt_def
        CharCode_Tab_def CharCode_Space_def p_maxDx_def p_charWidth_def js_sub_def js_gt_def
        js_trunc_quarter cw_def [symmetric] w_def [symmetric])
  show "map call_charCode (renderLine K target bg lighter rm getColor dy0 (Fin 4)
                           \<lparr>content = [97, 9, 98], tokens = [tok]\<rparr>) =
        (if rm = Large \<or> rm = Small then [Some 97, Some 98] else [None, None])"
    using fit a unfolding cw_def w_def
    by (cases rm)
       (simp_all add: renderLine_def Let_def charLoop.simps renderChar_def charCodeAt_def
        CharCode_Tab_def CharCode_Space_def p_maxDx_def p_charWidth_def js_sub_def js_gt_def
        js_trunc_quarter)
qed

theorem renderLine_tab_expansion_witness:
  "charCodeAt (p_content sample_tab_params)
     (charIndex \<lparr>dx = Fin 1, charIndex = 1, tabsCharDelta = Fin 0\<rparr>) = Some CharCode_Tab \<and>
   renderChar sample_tab_params sample_color \<lparr>dx = Fin 1, charIndex = 1, tabsCharDelta = Fin 0\<rparr> =
     ([], \<lparr>dx = Fin 4, charIndex = 1, tabsCharDelta = Fin 2\<rparr>) \<and>
   charCodeAt (p_content (sample_tab_params\<lparr>p_content := [32]\<rparr>))
     (charIndex \<lparr>dx = Fin 0, charIndex = 0, tabsCharDelta = Fin 0\<rparr>) = Some CharCode_Space \<and>
   renderChar (sample_tab_params\<lparr>p_content := [32]\<rparr>) sample_color
     \<lparr>dx = Fin 0, charIndex = 0, tabsCharDelta = Fin 0\<rparr> =
     ([], \<lparr>dx = Fin 1, charIndex = 0, tabsCharDelta = Fin 0\<rparr>) \<and>
   endIndex \<lparr>endIndex = 3, getForeground = 1\<rparr> = 3 \<and>
   5 * getMinimapCharWidth sample_Constants Small \<le> width \<lparr>width = 10, height = 2, data = []\<rparr> \<and>
   map call_dx (renderLine sample_Constants \<lparr>width = 10, height = 2, data = []\<rparr>
       sample_background False Small (\<lambda>_. sample_color) 0 (Fin 4)
       \<lparr>content = [97, 9, 98], tokens = [\<lparr>endIndex = 3, getForeground = 1\<rparr>]\<rparr>) = [Fin 0, Fin 4] \<and>
   map call_charCode (renderLine sample_Constants \<lparr>width = 10, height = 2, data = []\<rparr>
       sample_background False Small (\<lambda>_. sample_color) 0 (Fin 4)
       \<lparr>content = [97, 9, 98], tokens = [\<lparr>endIndex = 3, getForeground = 1\<rparr>]\<rparr>) =
     [Some 97, Some 98]"
proof -
  have tab: "charCodeAt (p_content sample_tab_params)
     (charIndex \<lparr>dx = Fin 1, charIndex = 1, tabsCharDelta = Fin 0\<rparr>) = Some CharCode_Tab"
    by (simp add: charCodeAt_def CharCode_Tab_def sample_defs)
  have space: "charCodeAt (p_content (sample_tab_params\<lparr>p_content := [32]\<rparr>))
     (charIndex \<lparr>dx = Fin 0, charIndex = 0, tabsCharDelta = Fin 0\<rparr>) = Some CharCode_Space"
    by (simp add: charCodeAt_def CharCode_Space_def)
  have line: "endIndex \<lparr>endIndex = 3, getForeground = 1\<rparr> = 3 \<and>
     5 * getMinimapCharWidth sample_Constants Small \<le> width \<lparr>width = 10, height = 2, data = []\<rparr>"
    by (simp add: sample_defs)
  from renderLine_tab_expansion
    [where P = sample_tab_params and c = "\<lparr>dx = Fin 1, charIndex = 1, tabsCharDelta = Fin 0\<rparr>"
       and color = sample_color and Q = "sample_tab_params\<lparr>p_content := [32]\<rparr>"
       and d = "\<lparr>dx = Fin 0, charIndex = 0, tabsCharDelta = Fin 0\<rparr>"
       and tok = "\<lparr>endIndex = 3, getForeground = 1\<rparr>" and K = sample_Constants and rm = Small
       and target = "\<lparr>width = 10, height = 2, data = []\<rparr>" and bg = sample_background
       and lighter = False and getColor = "\<lambda>_. sample_color" and ?dy0.0 = 0]
    tab space line
  show ?thesis
    by (simp add: p_charWidth_def js_sub_def js_trunc_quarter sample_defs)
qed

section \<open>The first frame\<close>

text \<open>
  C8. With no previous frame, \<open>_renderUntouchedLines\<close> returns normally: every row of the
  range from \<open>startLineNumber\<close> to \<open>endLineNumber\<close> is marked as needing rasterization, and
  the target is left as it is.
\<close>

theorem renderUntouchedLines_without_last:
  "renderUntouchedLines target startLN endLN h None =
     Inr (replicate (nat (endLN - startLN + 1)) True, target)"
  by (simp add: renderUntouchedLines_def)

section \<open>The rows of a frame\<close>







section \<open>Reuse of the rows of the previous frame: correctness\<close>

lemma row_bytes_nonneg: "0 \<le> row_bytes W h"
  by (simp add: row_bytes_def)

lemma splice_nth:
  fixes off :: nat
  assumes "off + length src \<le> length tgt" "j < length tgt"
  shows "(take off tgt @ src @ drop (off + length src) tgt) ! j =
     (if off \<le> j \<and> j < off + length src then src ! (j - off) else tgt ! j)"
proof -
  have l1: "length (take off tgt) = off" using assms by simp
  consider "j < off" | "off \<le> j" "j < off + length src" | "off + length src \<le> j"
    by linarith
  then show ?thesis
  proof cases
    case 1
    with assms show ?thesis by (simp add: nth_append)
  next
    case 2
    then have "\<not> j < off" "j - off < length src" by linarith+
    with 2 assms show ?thesis by (simp add: nth_append)
  next
    case 3
    then have n: "\<not> j < off" "\<not> j - off < length src" by linarith+
    have "(drop (off + length src) tgt) ! (j - off - length src) =
        tgt ! (off + length src + (j - off - length src))"
      using assms by (intro nth_drop) simp
    also have "off + length src + (j - off - length src) = j" using 3 by linarith
    finally show ?thesis using 3 n assms by (simp add: nth_append)
  qed
qed

lemma typed_set_at:
  assumes "0 \<le> off" "off + int (length src) \<le> int (length tgt)"
  shows "\<exists>t. typed_set tgt src off = Inr t \<and> length t = length tgt \<and>
     (\<forall>j. 0 \<le> j \<and> j < int (length tgt) \<longrightarrow>
        t ! nat j = (if off \<le> j \<and> j < off + int (length src) then src ! nat (j - off)
                     else tgt ! nat j))"
proof -
  let ?t = "take (nat off) tgt @ src @ drop (nat off + length src) tgt"
  have eq: "typed_set tgt src off = Inr ?t" using assms by (simp add: typed_set_def)
  have fits: "nat off + length src \<le> length tgt" using assms by linarith
  then have len: "length ?t = length tgt" by simp
  have "?t ! nat j = (if off \<le> j \<and> j < off + int (length src) then src ! nat (j - off)
                     else tgt ! nat j)" if "0 \<le> j" "j < int (length tgt)" for j
  proof -
    have j: "nat j < length tgt" using that by linarith
    have c: "(nat off \<le> nat j \<and> nat j < nat off + length src) =
        (off \<le> j \<and> j < off + int (length src))"
      using that assms by linarith
    have d: "nat j - nat off = nat (j - off)" using that assms by linarith
    show ?thesis using splice_nth [OF fits j] by (simp only: c d)
  qed
  with eq len show ?thesis by blast
qed

lemma subarray_at:
  assumes "0 \<le> lo" "lo \<le> hi" "hi \<le> int (length xs)"
  shows "length (subarray xs lo hi) = nat (hi - lo)"
    and "0 \<le> i \<Longrightarrow> i < hi - lo \<Longrightarrow> subarray xs lo hi ! nat i = xs ! nat (lo + i)"
proof -
  have eq: "subarray xs lo hi = take (nat (hi - lo)) (drop (nat lo) xs)"
    using assms by (simp add: subarray_def Let_def min_def)
  show "length (subarray xs lo hi) = nat (hi - lo)"
    unfolding eq using assms by simp
  assume i: "0 \<le> i" "i < hi - lo"
  then have n: "nat lo + nat i = nat (lo + i)" "nat i < nat (hi - lo)" "nat lo \<le> length xs"
    using assms by linarith+
  have "subarray xs lo hi ! nat i = drop (nat lo) xs ! nat i"
    unfolding eq using n(2) by simp
  also have "\<dots> = xs ! (nat lo + nat i)" using n(3) by (rule nth_drop)
  finally show "subarray xs lo hi ! nat i = xs ! nat (lo + i)" using n(1) by simp
qed

lemma flush_pending:
  assumes pk: "pending_ok W h ld k st" and len: "length (targetData st) = L"
    and fit: "k * row_bytes W h \<le> int L"
  shows "\<exists>td. flushCopyRequest ld st = Inr td \<and> length td = L \<and>
     (\<forall>j. 0 \<le> j \<and> j < int L \<longrightarrow>
        td ! nat j =
          (if copySourceStart st \<noteq> - 1 \<and> copyDestStart st \<le> j \<and> j < copyDestEnd st
           then ld ! nat (copySourceStart st + (j - copyDestStart st))
           else targetData st ! nat j))"
proof (cases "copySourceStart st = - 1")
  case True
  then show ?thesis using len by (simp add: flushCopyRequest_def)
next
  case False
  with pk have p: "0 \<le> copySourceStart st" "copySourceStart st \<le> copySourceEnd st"
    "copySourceEnd st \<le> int (length ld)" "0 \<le> copyDestStart st"
    "copyDestEnd st - copyDestStart st = copySourceEnd st - copySourceStart st"
    "copyDestEnd st \<le> k * row_bytes W h"
    by (auto simp: pending_ok_def)
  let ?sub = "subarray ld (copySourceStart st) (copySourceEnd st)"
  have sl: "int (length ?sub) = copyDestEnd st - copyDestStart st"
    using subarray_at(1) [OF p(1,2,3)] p by simp
  have "copyDestStart st + int (length ?sub) \<le> int (length (targetData st))"
    using sl p fit len by simp
  from typed_set_at [OF p(4) this] obtain td where
    td: "typed_set (targetData st) ?sub (copyDestStart st) = Inr td"
      "length td = length (targetData st)"
      "\<forall>j. 0 \<le> j \<and> j < int (length (targetData st)) \<longrightarrow>
          td ! nat j = (if copyDestStart st \<le> j \<and> j < copyDestStart st + int (length ?sub)
                        then ?sub ! nat (j - copyDestStart st) else targetData st ! nat j)"
    by blast
  have "td ! nat j =
          (if copySourceStart st \<noteq> - 1 \<and> copyDestStart st \<le> j \<and> j < copyDestEnd st
           then ld ! nat (copySourceStart st + (j - copyDestStart st))
           else targetData st ! nat j)" if j: "0 \<le> j" "j < int L" for j
  proof (cases "copyDestStart st \<le> j \<and> j < copyDestEnd st")
    case True
    then have "0 \<le> j - copyDestStart st" "j - copyDestStart st < copySourceEnd st - copySourceStart st"
      using p by simp_all
    from subarray_at(2) [OF p(1,2,3) this]
    have "?sub ! nat (j - copyDestStart st) = ld ! nat (copySourceStart st + (j - copyDestStart st))" .
    with td(3) j len True sl False show ?thesis by simp
  next
    case False
    with td(3) j len sl show ?thesis by auto
  qed
  with td len False show ?thesis by (simp add: flushCopyRequest_def)
qed

lemma flushed_row:
  assumes td: "\<forall>j. 0 \<le> j \<and> j < int L \<longrightarrow>
        td ! nat j =
          (if copySourceStart st \<noteq> - 1 \<and> copyDestStart st \<le> j \<and> j < copyDestEnd st
           then ld ! nat (copySourceStart st + (j - copyDestStart st))
           else targetData st ! nat j)"
    and pk: "pending_ok W h ld k st"
    and row: "row_done W h ld st k' y \<or> row_pending W h st k' y"
    and k': "0 \<le> k'" "(k' + 1) * row_bytes W h \<le> int L"
  shows "row_copied W h ld td k' y"
  unfolding row_copied_def
proof (intro allI impI)
  fix i assume i: "0 \<le> i \<and> i < row_bytes W h"
  let ?j = "k' * row_bytes W h + i"
  have j0: "0 \<le> ?j" using i k' row_bytes_nonneg [of W h] by simp
  have "?j < (k' + 1) * row_bytes W h" using i by (simp add: algebra_simps)
  with k' have jL: "?j < int L" by linarith
  have tdj: "td ! nat ?j =
      (if copySourceStart st \<noteq> - 1 \<and> copyDestStart st \<le> ?j \<and> ?j < copyDestEnd st
       then ld ! nat (copySourceStart st + (?j - copyDestStart st))
       else targetData st ! nat ?j)"
    using td j0 jL by blast
  from row show "td ! nat ?j = ld ! nat (y * int W * 4 + i)"
  proof
    assume d: "row_done W h ld st k' y"
    then have old: "targetData st ! nat ?j = ld ! nat (y * int W * 4 + i)"
      using i by (simp add: row_done_def row_copied_def)
    from d have "\<not> (copySourceStart st \<noteq> - 1 \<and> copyDestStart st \<le> ?j \<and> ?j < copyDestEnd st)"
      using \<open>?j < (k' + 1) * row_bytes W h\<close> by (auto simp: row_done_def)
    with tdj old show ?thesis by simp
  next
    assume p: "row_pending W h st k' y"
    then have inside: "copySourceStart st \<noteq> - 1 \<and> copyDestStart st \<le> ?j \<and> ?j < copyDestEnd st"
      and off: "y * int W * 4 - copySourceStart st = k' * row_bytes W h - copyDestStart st"
      using i \<open>?j < (k' + 1) * row_bytes W h\<close> by (auto simp: row_pending_def)
    have "copySourceStart st + (?j - copyDestStart st) = y * int W * 4 + i"
      using off by simp
    with tdj inside show ?thesis by simp
  qed
qed

lemma rows_ok_extend:
  assumes old: "rows_ok W h s0 ls ll ld n st"
    and len: "length (needed st) = nat (n - s0)" and n: "s0 \<le> n"
    and nd: "needed st' = needed st @ [x]"
    and keep: "\<And>m y. s0 \<le> m \<Longrightarrow> m < n \<Longrightarrow> last_dy ls ll m = Some y \<Longrightarrow>
        row_done W h ld st (m - s0) y \<or> row_pending W h st (m - s0) y \<Longrightarrow>
        row_done W h ld st' (m - s0) y \<or> row_pending W h st' (m - s0) y"
    and new: "case last_dy ls ll n of None \<Rightarrow> x
        | Some y \<Rightarrow> \<not> x \<and> (row_done W h ld st' (n - s0) y \<or> row_pending W h st' (n - s0) y)"
  shows "rows_ok W h s0 ls ll ld (n + 1) st'"
  unfolding rows_ok_def
proof (intro allI impI)
  fix m assume m: "s0 \<le> m \<and> m < n + 1"
  show "case last_dy ls ll m of None \<Rightarrow> needed st' ! nat (m - s0)
        | Some y \<Rightarrow> \<not> needed st' ! nat (m - s0) \<and>
            (row_done W h ld st' (m - s0) y \<or> row_pending W h st' (m - s0) y)"
  proof (cases "m = n")
    case True
    have "needed st' ! nat (n - s0) = x" using nd len [symmetric] by simp
    with new True show ?thesis by (simp split: option.splits)
  next
    case False
    with m have mn: "s0 \<le> m" "m < n" by simp_all
    then have "nat (m - s0) < length (needed st)" using len by linarith
    then have same: "needed st' ! nat (m - s0) = needed st ! nat (m - s0)"
      using nd by (simp add: nth_append)
    from old mn have o: "case last_dy ls ll m of None \<Rightarrow> needed st ! nat (m - s0)
        | Some y \<Rightarrow> \<not> needed st ! nat (m - s0) \<and>
            (row_done W h ld st (m - s0) y \<or> row_pending W h st (m - s0) y)"
      by (simp add: rows_ok_def)
    show ?thesis
    proof (cases "last_dy ls ll m")
      case None
      with o same show ?thesis by simp
    next
      case (Some y)
      with o have "row_done W h ld st (m - s0) y \<or> row_pending W h st (m - s0) y" by simp
      from keep [OF mn Some this] o Some same show ?thesis by simp
    qed
  qed
qed

lemma untouchedLoop_unfold:
  "n \<le> e \<Longrightarrow>
   untouchedLoop W h e ls ll ld n st =
     (case last_dy ls ll n of
        None \<Rightarrow>
          untouchedLoop W h e ls ll ld (n + 1)
            (st\<lparr>needed := needed st @ [True], dest_dy := dest_dy st + int h\<rparr>)
      | Some y \<Rightarrow>
          if copySourceEnd st = y * int W * 4 \<and> copyDestEnd st = dest_dy st * int W * 4 then
            untouchedLoop W h e ls ll ld (n + 1)
              (st\<lparr>copySourceEnd := (y + int h) * int W * 4,
                 copyDestEnd := (dest_dy st + int h) * int W * 4,
                 needed := needed st @ [False], dest_dy := dest_dy st + int h\<rparr>)
          else
            (case flushCopyRequest ld st of
               Inl err \<Rightarrow> Inl err
             | Inr td \<Rightarrow>
                 untouchedLoop W h e ls ll ld (n + 1)
                   (st\<lparr>targetData := td,
                      copySourceStart := y * int W * 4,
                      copySourceEnd := (y + int h) * int W * 4,
                      copyDestStart := dest_dy st * int W * 4,
                      copyDestEnd := (dest_dy st + int h) * int W * 4,
                      needed := needed st @ [False], dest_dy := dest_dy st + int h\<rparr>)))"
  by (subst untouchedLoop.simps) (simp add: last_dy_def Let_def)

lemma untouched_step:
  assumes inv: "untouched_inv W h s0 ls ll ld L n st" and n: "s0 \<le> n" "n \<le> e"
    and wf: "\<forall>m y. s0 \<le> m \<and> m \<le> e \<and> last_dy ls ll m = Some y \<longrightarrow>
        0 \<le> y \<and> (y + int h) * int W * 4 \<le> int (length ld)"
    and fit: "(e - s0 + 1) * row_bytes W h \<le> int L"
  shows "\<exists>st'. untouchedLoop W h e ls ll ld n st = untouchedLoop W h e ls ll ld (n + 1) st' \<and>
     untouched_inv W h s0 ls ll ld L (n + 1) st'"
proof -
  let ?R = "row_bytes W h"
  let ?k = "n - s0"
  from inv have len: "length (targetData st) = L" and ddy: "dest_dy st = ?k * int h"
    and nlen: "length (needed st) = nat ?k" and pk: "pending_ok W h ld ?k st"
    and rows: "rows_ok W h s0 ls ll ld n st"
    by (simp_all add: untouched_inv_def)
  have R0: "0 \<le> ?R" by (rule row_bytes_nonneg)
  have k0: "0 \<le> ?k" using n by simp
  have dstart: "dest_dy st * int W * 4 = ?k * ?R"
    and dend: "(dest_dy st + int h) * int W * 4 = (?k + 1) * ?R"
    by (simp_all add: ddy row_bytes_def algebra_simps)
  have kR: "?k * ?R \<le> (?k + 1) * ?R" using R0 by (simp add: algebra_simps)
  have k1: "(?k + 1) * ?R = ?k * ?R + ?R" by (simp add: algebra_simps)
  have "(?k + 1) * ?R \<le> (e - s0 + 1) * ?R" using n R0 by (intro mult_right_mono) simp_all
  with fit have fit1: "(?k + 1) * ?R \<le> int L" by linarith
  with kR have fit0: "?k * ?R \<le> int L" by linarith
  have below: "(m - s0 + 1) * ?R \<le> ?k * ?R" if "m < n" for m
    using that R0 by (intro mult_right_mono) simp_all
  note unfold = untouchedLoop_unfold [OF n(2), of W h ls ll ld st]
  show ?thesis
  proof (cases "last_dy ls ll n")
    case None
    let ?st = "st\<lparr>needed := needed st @ [True], dest_dy := dest_dy st + int h\<rparr>"
    have step: "untouchedLoop W h e ls ll ld n st = untouchedLoop W h e ls ll ld (n + 1) ?st"
      using None by (simp add: unfold)
    have pk': "pending_ok W h ld (?k + 1) ?st"
      using pk kR by (auto simp: pending_ok_def)
    have rows': "rows_ok W h s0 ls ll ld (n + 1) ?st"
      using rows nlen n(1)
    proof (rule rows_ok_extend)
      show "needed ?st = needed st @ [True]" by simp
      show "case last_dy ls ll n of None \<Rightarrow> True
        | Some y \<Rightarrow> \<not> True \<and> (row_done W h ld ?st (n - s0) y \<or> row_pending W h ?st (n - s0) y)"
        using None by simp
    qed (simp add: row_done_def row_pending_def)
    have "untouched_inv W h s0 ls ll ld L (n + 1) ?st"
      using len ddy nlen pk' rows' k0
      by (simp add: untouched_inv_def algebra_simps nat_add_distrib)
    with step show ?thesis by blast
  next
    case (Some y)
    from wf n Some have y0: "0 \<le> y" and yfit: "(y + int h) * int W * 4 \<le> int (length ld)"
      by blast+
    have yne: "y \<noteq> - 1" using y0 by simp
    have s0': "0 \<le> y * int W * 4" using y0 by simp
    have send: "(y + int h) * int W * 4 = y * int W * 4 + ?R"
      by (simp add: row_bytes_def algebra_simps)
    show ?thesis
    proof (cases "copySourceEnd st = y * int W * 4 \<and> copyDestEnd st = dest_dy st * int W * 4")
      case True
      let ?st = "st\<lparr>copySourceEnd := (y + int h) * int W * 4,
                     copyDestEnd := (dest_dy st + int h) * int W * 4,
                     needed := needed st @ [False], dest_dy := dest_dy st + int h\<rparr>"
      have step: "untouchedLoop W h e ls ll ld n st = untouchedLoop W h e ls ll ld (n + 1) ?st"
        using Some True by (simp add: unfold)
      from True s0' have "copySourceEnd st \<noteq> - 1" by simp
      with pk have p: "0 \<le> copySourceStart st" "copySourceStart st \<le> copySourceEnd st"
        "copySourceEnd st \<le> int (length ld)" "0 \<le> copyDestStart st"
        "copyDestEnd st - copyDestStart st = copySourceEnd st - copySourceStart st"
        "copyDestEnd st \<le> ?k * ?R"
        by (auto simp: pending_ok_def)
      have cde: "copyDestEnd st = ?k * ?R" using True dstart by simp
      have pk': "pending_ok W h ld (?k + 1) ?st"
        using p True yfit R0 cde unfolding pending_ok_def dend send k1 by simp
      have rows': "rows_ok W h s0 ls ll ld (n + 1) ?st"
        using rows nlen n(1)
      proof (rule rows_ok_extend)
        show "needed ?st = needed st @ [False]" by simp
        show "case last_dy ls ll n of None \<Rightarrow> False
          | Some y \<Rightarrow> \<not> False \<and> (row_done W h ld ?st (n - s0) y \<or> row_pending W h ?st (n - s0) y)"
          using Some p True cde unfolding row_pending_def dend by simp
        fix m y' assume "row_done W h ld st (m - s0) y' \<or> row_pending W h st (m - s0) y'"
        then show "row_done W h ld ?st (m - s0) y' \<or> row_pending W h ?st (m - s0) y'"
          using kR cde unfolding row_done_def row_pending_def dend by auto
      qed
      have "untouched_inv W h s0 ls ll ld L (n + 1) ?st"
        using len ddy nlen pk' rows' k0
        by (simp add: untouched_inv_def algebra_simps nat_add_distrib)
      with step show ?thesis by blast
    next
      case False
      from flush_pending [OF pk len fit0] obtain td where
        fl: "flushCopyRequest ld st = Inr td" and tdl: "length td = L"
        and tdj: "\<forall>j. 0 \<le> j \<and> j < int L \<longrightarrow>
          td ! nat j =
            (if copySourceStart st \<noteq> - 1 \<and> copyDestStart st \<le> j \<and> j < copyDestEnd st
             then ld ! nat (copySourceStart st + (j - copyDestStart st))
             else targetData st ! nat j)"
        by blast
      let ?st = "st\<lparr>targetData := td,
                     copySourceStart := y * int W * 4,
                     copySourceEnd := (y + int h) * int W * 4,
                     copyDestStart := dest_dy st * int W * 4,
                     copyDestEnd := (dest_dy st + int h) * int W * 4,
                     needed := needed st @ [False], dest_dy := dest_dy st + int h\<rparr>"
      have step: "untouchedLoop W h e ls ll ld n st = untouchedLoop W h e ls ll ld (n + 1) ?st"
        using Some False fl by (auto simp: unfold)
      have pk': "pending_ok W h ld (?k + 1) ?st"
        using s0' yfit R0 k0 unfolding pending_ok_def dend dstart send k1 by simp
      have rows': "rows_ok W h s0 ls ll ld (n + 1) ?st"
        using rows nlen n(1)
      proof (rule rows_ok_extend)
        show "needed ?st = needed st @ [False]" by simp
        show "case last_dy ls ll n of None \<Rightarrow> False
          | Some y \<Rightarrow> \<not> False \<and> (row_done W h ld ?st (n - s0) y \<or> row_pending W h ?st (n - s0) y)"
          using Some s0' kR unfolding row_pending_def dend dstart by simp
        fix m y'
        assume m: "s0 \<le> m" "m < n"
          and row: "row_done W h ld st (m - s0) y' \<or> row_pending W h st (m - s0) y'"
        have "(m - s0 + 1) * ?R \<le> int L" using below [OF m(2)] fit0 by linarith
        with tdj pk row m(1) have "row_copied W h ld td (m - s0) y'"
          by (intro flushed_row [where st = st and k = ?k and L = L]) simp_all
        then have "row_done W h ld ?st (m - s0) y'"
          using below [OF m(2)] unfolding row_done_def dstart by simp
        then show "row_done W h ld ?st (m - s0) y' \<or> row_pending W h ?st (m - s0) y'" ..
      qed
      have "untouched_inv W h s0 ls ll ld L (n + 1) ?st"
        using tdl ddy nlen pk' rows' k0
        by (simp add: untouched_inv_def algebra_simps nat_add_distrib)
      with step show ?thesis by blast
    qed
  qed
qed

lemma untouched_loop:
  assumes wf: "\<forall>m y. s0 \<le> m \<and> m \<le> e \<and> last_dy ls ll m = Some y \<longrightarrow>
        0 \<le> y \<and> (y + int h) * int W * 4 \<le> int (length ld)"
    and fit: "(e - s0 + 1) * row_bytes W h \<le> int L"
  shows "untouched_inv W h s0 ls ll ld L n st \<Longrightarrow> s0 \<le> n \<Longrightarrow> n \<le> max s0 (e + 1) \<Longrightarrow>
     \<exists>st'. untouchedLoop W h e ls ll ld n st = Inr st' \<and>
       untouched_inv W h s0 ls ll ld L (max s0 (e + 1)) st'"
proof (induction "nat (e + 1 - n)" arbitrary: n st)
  case 0
  then have stop: "\<not> n \<le> e" and fin: "n = max s0 (e + 1)" by linarith+
  have "untouchedLoop W h e ls ll ld n st = Inr st"
    using stop by (simp add: untouchedLoop.simps [of W h e ls ll ld n st])
  with 0(2) fin show ?case by simp
next
  case (Suc k)
  then have n: "s0 \<le> n" "n \<le> e" by linarith+
  from untouched_step [OF Suc.prems(1) n wf fit] obtain st' where
    step: "untouchedLoop W h e ls ll ld n st = untouchedLoop W h e ls ll ld (n + 1) st'"
    and inv': "untouched_inv W h s0 ls ll ld L (n + 1) st'"
    by blast
  have "k = nat (e + 1 - (n + 1))" using Suc.hyps(2) by linarith
  from Suc.hyps(1) [OF this inv'] n step show ?case by simp
qed

lemma row_copied_slices:
  assumes rc: "row_copied W h ld td k y" and k: "0 \<le> k" and y: "0 \<le> y"
    and tdl: "(k + 1) * row_bytes W h \<le> int (length td)"
    and ldl: "(y + int h) * int W * 4 \<le> int (length ld)"
  shows "take (h * W * 4) (drop (nat k * (h * W * 4)) td) =
         take (h * W * 4) (drop (nat y * W * 4) ld)"
proof (rule nth_equalityI)
  have R: "row_bytes W h = int (h * W * 4)" by (simp add: row_bytes_def)
  have kk: "int (nat k * (h * W * 4)) = k * row_bytes W h" using k by (simp add: R)
  have yy: "int (nat y * W * 4) = y * int W * 4" using y by simp
  have "int (nat k * (h * W * 4) + h * W * 4) = int (nat k * (h * W * 4)) + int (h * W * 4)"
    by (rule of_nat_add)
  also have "\<dots> = k * row_bytes W h + row_bytes W h" by (simp only: kk R)
  also have "\<dots> = (k + 1) * row_bytes W h" by (simp add: algebra_simps)
  finally have "int (nat k * (h * W * 4) + h * W * 4) \<le> int (length td)" using tdl by simp
  then have t1: "nat k * (h * W * 4) + h * W * 4 \<le> length td" by (simp only: of_nat_le_iff)
  have "int (nat y * W * 4 + h * W * 4) = int (nat y * W * 4) + int (h * W * 4)"
    by (rule of_nat_add)
  also have "\<dots> = y * int W * 4 + row_bytes W h" by (simp only: yy R)
  also have "\<dots> = (y + int h) * int W * 4" by (simp add: row_bytes_def algebra_simps)
  finally have "int (nat y * W * 4 + h * W * 4) \<le> int (length ld)" using ldl by simp
  then have l1: "nat y * W * 4 + h * W * 4 \<le> length ld" by (simp only: of_nat_le_iff)
  show "length (take (h * W * 4) (drop (nat k * (h * W * 4)) td)) =
        length (take (h * W * 4) (drop (nat y * W * 4) ld))"
    using t1 l1 by simp
  fix i assume "i < length (take (h * W * 4) (drop (nat k * (h * W * 4)) td))"
  then have i: "i < h * W * 4" by simp
  then have "int i < int (h * W * 4)" by (simp only: of_nat_less_iff)
  then have "0 \<le> int i \<and> int i < row_bytes W h" by (simp only: R of_nat_0_le_iff simp_thms)
  with rc have "td ! nat (k * row_bytes W h + int i) = ld ! nat (y * int W * 4 + int i)"
    by (simp add: row_copied_def)
  moreover have "nat (k * row_bytes W h + int i) = nat k * (h * W * 4) + i"
    using kk by linarith
  moreover have "nat (y * int W * 4 + int i) = nat y * W * 4 + i"
    using yy by linarith
  ultimately have "td ! (nat k * (h * W * 4) + i) = ld ! (nat y * W * 4 + i)" by simp
  then show "take (h * W * 4) (drop (nat k * (h * W * 4)) td) ! i =
             take (h * W * 4) (drop (nat y * W * 4) ld) ! i"
    using i t1 l1 by simp
qed

text \<open>
  C2. The previous frame holds, for the lines from its first one on, records with a row
  offset \<open>dy\<close>; \<open>last_dy\<close> is the offset recorded for a line, when the line is in the
  previous range and its record is not the invalid one. Let the records of the lines of
  the new range lie within the old buffer, and the rows of the new range within the new
  buffer (two frames of the same buffers, each with no more rows than fit, are so). Then
  \<open>_renderUntouchedLines\<close> returns without raising; a line with a record is flagged as
  not needed, and its \<open>minimapLineHeight * width * 4\<close> bytes in the new buffer, at the row
  of its index, are the bytes at its recorded \<open>dy\<close> in the old buffer; a line without a
  record is flagged as needed.
\<close>

theorem renderUntouchedLines_reuse:
  assumes wf: "\<forall>n y. s \<le> n \<and> n \<le> e \<and> last_dy (rendLineNumberStart rd) (lines rd) n = Some y \<longrightarrow>
        0 \<le> y \<and> (y + int h) * int (width target) * 4 \<le> int (length (data (imageData rd)))"
    and fit: "(e - s + 1) * int h * int (width target) * 4 \<le> int (length (data target))"
  shows "\<exists>nd target'.
     renderUntouchedLines target s e h (Some rd) = Inr (nd, target') \<and>
     length nd = nat (e - s + 1) \<and>
     (\<forall>n. s \<le> n \<and> n \<le> e \<longrightarrow>
        (case last_dy (rendLineNumberStart rd) (lines rd) n of
           None \<Rightarrow> nd ! nat (n - s)
         | Some y \<Rightarrow>
             \<not> nd ! nat (n - s) \<and>
             take (h * width target * 4) (drop (nat (n - s) * (h * width target * 4)) (data target')) =
             take (h * width target * 4) (drop (nat y * width target * 4) (data (imageData rd)))))"
proof -
  let ?W = "width target" and ?ls = "rendLineNumberStart rd" and ?ll = "lines rd"
  let ?ld = "data (imageData rd)" and ?L = "length (data target)"
  let ?f = "max s (e + 1)"
  let ?st0 = "\<lparr>needed = [], targetData = data target, copySourceStart = - 1,
     copySourceEnd = - 1, copyDestStart = - 1, copyDestEnd = - 1, dest_dy = 0\<rparr>"

  have fit': "(e - s + 1) * row_bytes ?W h \<le> int ?L"
    using fit by (simp add: row_bytes_def algebra_simps)
  have inv0: "untouched_inv ?W h s ?ls ?ll ?ld ?L s ?st0"
    by (auto simp: untouched_inv_def pending_ok_def rows_ok_def)
  from untouched_loop [OF wf fit' inv0] obtain st where
    loop: "untouchedLoop ?W h e ?ls ?ll ?ld s ?st0 = Inr st"
    and inv: "untouched_inv ?W h s ?ls ?ll ?ld ?L ?f st"
    by auto
  from inv have len: "length (targetData st) = ?L" and nlen: "length (needed st) = nat (?f - s)"
    and pk: "pending_ok ?W h ?ld (?f - s) st" and rows: "rows_ok ?W h s ?ls ?ll ?ld ?f st"
    by (simp_all add: untouched_inv_def)
  have R0: "0 \<le> row_bytes ?W h" by (rule row_bytes_nonneg)
  have ffit: "(?f - s) * row_bytes ?W h \<le> int ?L"
  proof (cases "s \<le> e + 1")
    case True
    then have eq: "?f - s = e - s + 1" by simp
    show ?thesis unfolding eq by (rule fit')
  next
    case False
    then have "?f - s = 0" by simp
    then show ?thesis by simp
  qed
  from flush_pending [OF pk len ffit] obtain td where
    fl: "flushCopyRequest ?ld st = Inr td" and tdl: "length td = ?L"
    and tdj: "\<forall>j. 0 \<le> j \<and> j < int ?L \<longrightarrow>
        td ! nat j =
          (if copySourceStart st \<noteq> - 1 \<and> copyDestStart st \<le> j \<and> j < copyDestEnd st
           then ?ld ! nat (copySourceStart st + (j - copyDestStart st))
           else targetData st ! nat j)"
    by blast
  have res: "renderUntouchedLines target s e h (Some rd) = Inr (needed st, target\<lparr>data := td\<rparr>)"
    using loop fl by (simp add: renderUntouchedLines_def)
  have "nat (?f - s) = nat (e - s + 1)" by linarith
  with nlen have nl: "length (needed st) = nat (e - s + 1)" by (simp only:)
  have row: "case last_dy ?ls ?ll n of
           None \<Rightarrow> needed st ! nat (n - s)
         | Some y \<Rightarrow>
             \<not> needed st ! nat (n - s) \<and>
             take (h * ?W * 4) (drop (nat (n - s) * (h * ?W * 4)) td) =
             take (h * ?W * 4) (drop (nat y * ?W * 4) ?ld)"
    if n: "s \<le> n \<and> n \<le> e" for n
  proof (cases "last_dy ?ls ?ll n")
    case None
    with rows n show ?thesis by (auto simp: rows_ok_def)
  next
    case (Some y)
    from n have nf: "s \<le> n \<and> n < ?f" by simp
    with rows Some have nd: "\<not> needed st ! nat (n - s)"
      and r: "row_done ?W h ?ld st (n - s) y \<or> row_pending ?W h st (n - s) y"
      by (auto simp: rows_ok_def)
    have "(n - s + 1) * row_bytes ?W h \<le> (e - s + 1) * row_bytes ?W h"
      using n R0 by (intro mult_right_mono) simp_all
    with fit' have bound: "(n - s + 1) * row_bytes ?W h \<le> int ?L" by linarith
    from n have k0: "0 \<le> n - s" by simp
    have rc: "row_copied ?W h ?ld td (n - s) y"
      using tdj pk r k0 bound by (rule flushed_row)
    from wf Some n have y: "0 \<le> y" "(y + int h) * int ?W * 4 \<le> int (length ?ld)"
      by blast+
    have "take (h * ?W * 4) (drop (nat (n - s) * (h * ?W * 4)) td) =
          take (h * ?W * 4) (drop (nat y * ?W * 4) ?ld)"
      using rc k0 y(1) _ y(2) by (rule row_copied_slices) (simp add: tdl bound)
    with nd Some show ?thesis by simp
  qed
  have "\<forall>n. s \<le> n \<and> n \<le> e \<longrightarrow>
        (case last_dy ?ls ?ll n of
           None \<Rightarrow> needed st ! nat (n - s)
         | Some y \<Rightarrow>
             \<not> needed st ! nat (n - s) \<and>
             take (h * ?W * 4) (drop (nat (n - s) * (h * ?W * 4)) (data (target\<lparr>data := td\<rparr>))) =
             take (h * ?W * 4) (drop (nat y * ?W * 4) ?ld))"
  proof (intro allI impI)
    fix n assume "s \<le> n \<and> n \<le> e"
    from row [OF this] show "case last_dy ?ls ?ll n of
           None \<Rightarrow> needed st ! nat (n - s)
         | Some y \<Rightarrow>
             \<not> needed st ! nat (n - s) \<and>
             take (h * ?W * 4) (drop (nat (n - s) * (h * ?W * 4)) (data (target\<lparr>data := td\<rparr>))) =
             take (h * ?W * 4) (drop (nat y * ?W * 4) ?ld)"
      by (simp split: option.splits)
  qed
  with res nl show ?thesis by blast
qed

theorem renderUntouchedLines_reuse_witness:
  "last_dy (rendLineNumberStart sample_last) (lines sample_last) 2 = Some 2 \<and>
   (\<exists>nd target'.
      renderUntouchedLines sample_target 2 3 2 (Some sample_last) = Inr (nd, target') \<and>
      length nd = 2 \<and> \<not> nd ! 0 \<and>
      take 8 (data target') = [9, 10, 11, 12, 13, 14, 15, 16])"
proof -
  have rec: "last_dy (rendLineNumberStart sample_last) (lines sample_last) 2 = Some 2"
    by (simp add: last_dy_def sample_last_def)
  have wf: "\<forall>n y. 2 \<le> n \<and> n \<le> 3 \<and>
        last_dy (rendLineNumberStart sample_last) (lines sample_last) n = Some y \<longrightarrow>
        0 \<le> y \<and> (y + int 2) * int (width sample_target) * 4
          \<le> int (length (data (imageData sample_last)))"
  proof (intro allI impI)
    fix n y
    assume a: "2 \<le> n \<and> n \<le> 3 \<and>
        last_dy (rendLineNumberStart sample_last) (lines sample_last) n = Some y"
    then have "n = 2 \<or> n = 3" by linarith
    with a show "0 \<le> y \<and> (y + int 2) * int (width sample_target) * 4
          \<le> int (length (data (imageData sample_last)))"
      by (auto simp: last_dy_def sample_last_def sample_target_def)
  qed
  have fit: "(3 - 2 + 1) * int 2 * int (width sample_target) * 4
      \<le> int (length (data sample_target))"
    by (simp add: sample_target_def tiny_fill_def)
  from renderUntouchedLines_reuse [OF wf fit] obtain nd target' where
    res: "renderUntouchedLines sample_target 2 3 2 (Some sample_last) = Inr (nd, target')"
    and len: "length nd = nat (3 - 2 + 1)"
    and rows: "\<forall>n. 2 \<le> n \<and> n \<le> 3 \<longrightarrow>
        (case last_dy (rendLineNumberStart sample_last) (lines sample_last) n of
           None \<Rightarrow> nd ! nat (n - 2)
         | Some y \<Rightarrow>
             \<not> nd ! nat (n - 2) \<and>
             take (2 * width sample_target * 4)
               (drop (nat (n - 2) * (2 * width sample_target * 4)) (data target')) =
             take (2 * width sample_target * 4)
               (drop (nat y * width sample_target * 4) (data (imageData sample_last))))"
    by blast
  have "(2::int) \<le> 2 \<and> (2::int) \<le> 3" by simp
  with rows have "case last_dy (rendLineNumberStart sample_last) (lines sample_last) 2 of
           None \<Rightarrow> nd ! nat (2 - 2)
         | Some y \<Rightarrow>
             \<not> nd ! nat (2 - 2) \<and>
             take (2 * width sample_target * 4)
               (drop (nat (2 - 2) * (2 * width sample_target * 4)) (data target')) =
             take (2 * width sample_target * 4)
               (drop (nat y * width sample_target * 4) (data (imageData sample_last)))"
    by blast
  with rec have "\<not> nd ! 0 \<and> take 8 (data target') = [9, 10, 11, 12, 13, 14, 15, 16]"
    by (simp add: sample_target_def sample_last_def)
  with rec res len show ?thesis by auto
qed

end
